theory Spec2Isabelle
  imports
    Main
    "HOL-Library.Word"
    "HOL-Library.Char_ord"
    "HOL-Library.List_Lexorder"
    "HOL-Library.Multiset"
    "HOL-Library.AList"
begin

section \<open>Kubernetes data used by the operator\<close>

text \<open>
  Go strings are byte strings compared bytewise; \<open>string\<close> with the orders of
  \<open>Char_ord\<close> and \<open>List_Lexorder\<close> is the same order. \<open>int32\<close> is \<open>32 word\<close>, read as
  a signed number by \<open>sint\<close>. A Go slice is a list; a \<open>nil\<close> slice and an empty one are
  both \<open>[]\<close>, except where the source tests for \<open>nil\<close> (then the field is an option).
\<close>

subsection \<open>Go maps\<close>

text \<open>
  A Go \<open>map[string]V\<close> is an association list with pairwise distinct keys. The order of
  the list carries no meaning: \<open>range\<close> over a map visits the entries in an order the
  runtime chooses, and the model takes that choice as a parameter (\<open>RangeOrder\<close> below).
\<close>

type_synonym 'v gomap = "(string \<times> 'v) list"

definition go_lookup :: "'v gomap \<Rightarrow> string \<Rightarrow> 'v option" where
  \<comment> \<open>\<open>v, exists := m[k]\<close>\<close>
  "go_lookup m k = map_of m k"

definition go_assign :: "string \<Rightarrow> 'v \<Rightarrow> 'v gomap \<Rightarrow> 'v gomap" where
  \<comment> \<open>\<open>m[k] = v\<close>\<close>
  "go_assign k v m = AList.update k v m"

definition go_delete :: "string \<Rightarrow> 'v gomap \<Rightarrow> 'v gomap" where
  \<comment> \<open>\<open>delete(m, k)\<close>\<close>
  "go_delete k m = AList.delete k m"

subsection \<open>API objects\<close>

record ServicePort =
  sp_Name :: string
  sp_Port :: "32 word"
  sp_Protocol :: string

record ContainerPort =
  cp_Name :: string
  cp_ContainerPort :: "32 word"
  cp_Protocol :: string

datatype EnvVarSource = FieldRef (FieldPath: string) | OtherSource string

record EnvVar =
  ev_Name :: string
  ev_Value :: string
  ev_ValueFrom :: "EnvVarSource option"

record VolumeMount =
  vm_Name :: string
  vm_MountPath :: string

record ConfigMapsSpec =
  cm_Name :: string
  cm_MountPath :: string

typedecl EnvFromSource
typedecl ResourceRequirements
typedecl SecurityContext
typedecl Lifecycle

text \<open>\<open>v1alpha1.AmazonCloudWatchAgentSpec\<close>, the fields the two source files read.\<close>

record AmazonCloudWatchAgentSpec =
  Image :: string
  ImagePullPolicy :: string
  Config :: string
  Ports :: "ServicePort list"
  Args :: "string gomap option"
  VolumeMounts :: "VolumeMount list"
  Env :: "EnvVar list option"
  ConfigMaps :: "ConfigMapsSpec list"
  EnvFrom :: "EnvFromSource list"
  Resources :: "ResourceRequirements option"
  SecurityContext :: "SecurityContext option"
  Lifecycle :: "Lifecycle option"

record AmazonCloudWatchAgent =
  Namespace :: string
  Name :: string
  Spec :: AmazonCloudWatchAgentSpec

text \<open>\<open>config.Config\<close>, through the two accessors \<open>Container\<close> calls.\<close>

record Config =
  CollectorImage :: string
  CollectorConfigMapEntry :: string

text \<open>\<open>corev1.Container\<close>, the fields \<open>Container\<close> sets.\<close>

record Container =
  c_Name :: string
  c_Image :: string
  c_ImagePullPolicy :: string
  c_Ports :: "ContainerPort list"
  c_VolumeMounts :: "VolumeMount list"
  c_Args :: "string list"
  c_Env :: "EnvVar list"
  c_EnvFrom :: "EnvFromSource list"
  c_Resources :: "ResourceRequirements option"
  c_SecurityContext :: "SecurityContext option"
  c_Lifecycle :: "Lifecycle option"

subsection \<open>Errors of the API machinery\<close>

text \<open>
  An \<open>error\<close> value carries what the predicates of \<open>k8s.io/apimachinery/pkg/api/errors\<close>
  read from it: the status reason, the HTTP code and the cause types of the status
  details. A reason outside the library's table of known reasons is
  \<open>StatusReasonUnknown\<close>; a plain Go error has that reason and code 0.
\<close>

datatype StatusReason =
  StatusReasonUnknown | StatusReasonForbidden | StatusReasonNotFound | StatusReasonOther string

record error =
  ErrReason :: StatusReason
  ErrCode :: int
  ErrCauses :: "string list"
  ErrMessage :: string

definition IsForbidden :: "error \<Rightarrow> bool" where
  "IsForbidden err \<longleftrightarrow>
     ErrReason err = StatusReasonForbidden \<or> (ErrReason err = StatusReasonUnknown \<and> ErrCode err = 403)"

definition IsNotFound :: "error \<Rightarrow> bool" where
  "IsNotFound err \<longleftrightarrow>
     ErrReason err = StatusReasonNotFound \<or> (ErrReason err = StatusReasonUnknown \<and> ErrCode err = 404)"

definition HasStatusCause :: "error \<Rightarrow> string \<Rightarrow> bool" where
  "HasStatusCause err name \<longleftrightarrow> name \<in> set (ErrCauses err)"

definition NamespaceTerminatingCause :: string where
  "NamespaceTerminatingCause = ''NamespaceTerminating''"

definition IgnoreNotFound :: "error \<Rightarrow> error option" where
  \<comment> \<open>\<open>client.IgnoreNotFound\<close>, on a non-nil error\<close>
  "IgnoreNotFound err = (if IsNotFound err then None else Some err)"

subsection \<open>The logger\<close>

text \<open>
  What \<open>logr.Logger\<close> receives, in order: \<open>Info\<close> with its verbosity level, message and
  key/value pairs, and \<open>Error\<close> with the error and the message.
\<close>

datatype log_value = VString string | VInt32 "32 word" | VStrings "string list"

datatype log_entry =
  LogInfo nat string "(string \<times> log_value) list"
| LogError error string

section \<open>The reconciler (controllers package)\<close>

text \<open>
  \<open>reconcile.Params\<close>: the configuration and the fetched instance. The client, logger,
  scheme and recorder of the source are handles; what the tasks do through them is
  their effect on the cluster, a state of type \<open>'w\<close>.
\<close>

record Params =
  p_Config :: Config
  p_Instance :: AmazonCloudWatchAgent

record 'w Task =
  Do :: "Params \<Rightarrow> 'w \<Rightarrow> error option \<times> 'w"
  TaskName :: string
  BailOnError :: bool

text \<open>
  The state of one run of the pipeline: the cluster, the result of every call of a
  task's \<open>Do\<close> so far (in call order, \<open>None\<close> for \<open>nil\<close>), and the log.
  Tasks are called from the front of the list, so the call at position \<open>k\<close> of \<open>calls\<close>
  is the call of task \<open>k\<close>, and task \<open>k\<close> has run exactly when \<open>k < length calls\<close>.
\<close>

record 'w run =
  world :: 'w
  calls :: "error option list"
  logs :: "log_entry list"

record NamespacedName =
  nn_Namespace :: string
  nn_Name :: string

text \<open>
  The reconciler: \<open>Get\<close> is the embedded client's read of the custom resource (an error,
  or the instance), \<open>config\<close> and \<open>tasks\<close> are the fields of the source's struct. The
  read/write mutex around \<open>tasks\<close> has no counterpart in a sequential model.
\<close>

record 'w Reconciler =
  Get :: "'w \<Rightarrow> NamespacedName \<Rightarrow> error + AmazonCloudWatchAgent"
  config :: Config
  tasks :: "'w Task list"

datatype Result = Result (Requeue: bool) (RequeueAfter: int)

definition empty_Result :: Result where
  \<comment> \<open>\<open>ctrl.Result{}\<close>\<close>
  "empty_Result = Result False 0"

text \<open>The body of the \<open>for _, task := range r.tasks\<close> loop of \<open>RunTasks\<close>.\<close>

fun RunTasks_loop :: "'w Task list \<Rightarrow> Params \<Rightarrow> 'w run \<Rightarrow> error option \<times> 'w run" where
  "RunTasks_loop [] params st = (None, st)"
| "RunTasks_loop (task # rest) params st =
     (case Do task params (world st) of
        (r, w') \<Rightarrow>
          (let st1 = st\<lparr>world := w', calls := calls st @ [r]\<rparr> in
           case r of
             None \<Rightarrow> RunTasks_loop rest params st1
           | Some err \<Rightarrow>
               if IsForbidden err \<and> HasStatusCause err NamespaceTerminatingCause
               then (None,
                     st1\<lparr>logs := logs st1 @
                       [LogInfo 2 ''Exiting reconcile loop because namespace is being terminated''
                          [(''namespace'', VString (Namespace (p_Instance params)))]]\<rparr>)
               else
                 (let st2 = st1\<lparr>logs := logs st1 @
                        [LogError err (''failed to reconcile '' @ TaskName task)]\<rparr>
                  in if BailOnError task then (Some err, st2)
                     else RunTasks_loop rest params st2)))"

definition RunTasks :: "'w Reconciler \<Rightarrow> Params \<Rightarrow> 'w \<Rightarrow> error option \<times> 'w run" where
  "RunTasks r params w = RunTasks_loop (tasks r) params \<lparr>world = w, calls = [], logs = []\<rparr>"

definition Reconcile :: "'w Reconciler \<Rightarrow> NamespacedName \<Rightarrow> 'w \<Rightarrow> (Result \<times> error option) \<times> 'w run" where
  "Reconcile r req w =
     (case Get r w req of
        Inl err \<Rightarrow>
          ((empty_Result, IgnoreNotFound err),
           \<lparr>world = w, calls = [],
            logs = (if \<not> IsNotFound err
                    then [LogError err ''unable to fetch AmazonCloudWatchAgent''] else [])\<rparr>)
      | Inr instance \<Rightarrow>
          (let params = \<lparr>p_Config = config r, p_Instance = instance\<rparr> in
           case RunTasks r params w of
             (Some err, st) \<Rightarrow> ((empty_Result, Some err), st)
           | (None, st) \<Rightarrow> ((empty_Result, None), st)))"

section \<open>The container builder (collector package)\<close>

subsection \<open>What the builder takes from outside its arguments\<close>

text \<open>
  \<open>Container\<close> reads, besides its arguments:
  \<^item> \<open>constants.CloudwatchAgentPorts\<close>, the table of default ports (its declaration is not
    among the sources, so it is a parameter);
  \<^item> \<open>validation.IsValidPortName\<close> and \<open>validation.IsValidPortNum\<close> of the platform
    library, each returning the list of violations (empty when valid);
  \<^item> \<open>proxy.ReadProxyVarsFromEnv()\<close>, which reads the environment of the operator
    process: the field holds the list that call returns when \<open>Container\<close> runs;
  \<^item> the fixed names \<open>naming.ConfigMapVolume()\<close>, \<open>naming.Container()\<close>, the function
    \<open>naming.ConfigMapExtra\<close> and the library's \<open>path.Join\<close>.
\<close>

record Externals =
  CloudwatchAgentPorts :: "ServicePort list"
  IsValidPortName :: "string \<Rightarrow> string list"
  IsValidPortNum :: "int \<Rightarrow> string list"
  ReadProxyVarsFromEnv :: "EnvVar list"
  naming_ConfigMapVolume :: string
  naming_Container :: string
  naming_ConfigMapExtra :: "string \<Rightarrow> string"
  path_Join :: "string list \<Rightarrow> string"

text \<open>
  The order in which \<open>range\<close> visits a map: one function for each of the two maps
  \<open>Container\<close> iterates. The runtime may pick any order, so an admissible choice returns
  the entries of the map, each once.
\<close>

record RangeOrder =
  rangeArgs :: "string gomap \<Rightarrow> (string \<times> string) list"
  rangePorts :: "ContainerPort gomap \<Rightarrow> (string \<times> ContainerPort) list"

definition admissible :: "RangeOrder \<Rightarrow> bool" where
  "admissible ord \<longleftrightarrow>
     (\<forall>m. mset (rangeArgs ord m) = mset m) \<and> (\<forall>m. mset (rangePorts ord m) = mset m)"

subsection \<open>Port names\<close>

definition maxPortLen :: nat where
  "maxPortLen = 15"

text \<open>
  Modelled from the spec: \<open>naming.Truncate\<close> (package \<open>internal/naming\<close>) is not among the
  sources. The spec: "truncate its name to a maximum of 15 characters". The call in
  \<open>getConfigContainerPorts\<close> passes the name as the format and no further values.
\<close>

definition Truncate :: "string \<Rightarrow> nat \<Rightarrow> string" where
  "Truncate format maxLen = take maxLen format"

subsection \<open>\<open>getConfigContainerPorts\<close>\<close>

fun getConfigContainerPorts_loop ::
  "Externals \<Rightarrow> ServicePort list \<Rightarrow> ContainerPort gomap \<times> log_entry list
     \<Rightarrow> ContainerPort gomap \<times> log_entry list" where
  "getConfigContainerPorts_loop ext [] acc = acc"
| "getConfigContainerPorts_loop ext (p # ps) (ports, lg) =
     (let truncName = Truncate (sp_Name p) maxPortLen;
          lg1 = (if sp_Name p \<noteq> truncName
                 then lg @ [LogInfo 0 ''truncating container port name''
                              [(''port.name.prev'', VString (sp_Name p)),
                               (''port.name.new'', VString truncName)]]
                 else lg);
          nameErrs = IsValidPortName ext truncName;
          numErrs = IsValidPortNum ext (sint (sp_Port p))
      in if length nameErrs > 0 \<or> length numErrs > 0
         then getConfigContainerPorts_loop ext ps
                (ports,
                 lg1 @ [LogInfo 0 ''dropping invalid container port''
                          [(''port.name'', VString truncName), (''port.num'', VInt32 (sp_Port p)),
                           (''port.name.errs'', VStrings nameErrs), (''num.errs'', VStrings numErrs)]])
         else getConfigContainerPorts_loop ext ps
                (go_assign truncName
                   \<lparr>cp_Name = truncName, cp_ContainerPort = sp_Port p, cp_Protocol = sp_Protocol p\<rparr>
                   ports,
                 lg1))"

definition getConfigContainerPorts ::
  "Externals \<Rightarrow> string \<Rightarrow> (ContainerPort gomap \<times> error option) \<times> log_entry list" where
  "getConfigContainerPorts ext cfg =
     (case getConfigContainerPorts_loop ext (CloudwatchAgentPorts ext) ([], []) of
        (ports, lg) \<Rightarrow> ((ports, None), lg))"

subsection \<open>\<open>portMapToList\<close>\<close>

text \<open>
  \<open>sort.Slice\<close> orders by the \<open>Name\<close> field with Go's bytewise order on strings and is not stable;
  \<open>sort_key\<close> is. The two agree on a slice whose names are pairwise distinct, and every
  map \<open>Container\<close> passes has that property (lemma \<open>named_Container_ports\<close>).
\<close>

definition portMapToList :: "RangeOrder \<Rightarrow> ContainerPort gomap \<Rightarrow> ContainerPort list" where
  "portMapToList ord portMap = sort_key cp_Name (map snd (rangePorts ord portMap))"

subsection \<open>\<open>Container\<close>\<close>

text \<open>Lines 205 to 217 of the source: the default ports, overlaid with the declared ones.\<close>

definition overlayPorts :: "ServicePort list \<Rightarrow> ContainerPort gomap \<Rightarrow> ContainerPort gomap" where
  "overlayPorts ps ports =
     foldl (\<lambda>m p. go_assign (sp_Name p)
                     \<lparr>cp_Name = sp_Name p, cp_ContainerPort = sp_Port p, cp_Protocol = sp_Protocol p\<rparr> m)
           ports ps"

definition Container_ports ::
  "Externals \<Rightarrow> AmazonCloudWatchAgent \<Rightarrow> ContainerPort gomap \<times> log_entry list" where
  "Container_ports ext otelcol =
     (case getConfigContainerPorts ext (Config (Spec otelcol)) of
        ((ports, err), lg) \<Rightarrow>
          (overlayPorts (Ports (Spec otelcol)) ports,
           lg @ (case err of None \<Rightarrow> [] | Some e \<Rightarrow> [LogError e ''container ports config''])))"

definition renderFlag :: "string \<Rightarrow> string \<Rightarrow> string" where
  \<comment> \<open>\<open>fmt.Sprintf("--%s=%s", k, v)\<close>\<close>
  "renderFlag k v = ''--'' @ k @ ''='' @ v"

text \<open>
  Lines 220 to 254, the argument list. The second component is the flag map after the
  call: the \<open>delete\<close> acts on the caller's map when \<open>Spec.Args\<close> is not \<open>nil\<close>.
\<close>

definition Container_args ::
  "RangeOrder \<Rightarrow> Config \<Rightarrow> AmazonCloudWatchAgent \<Rightarrow> bool
     \<Rightarrow> string list \<times> string gomap \<times> log_entry list" where
  "Container_args ord cfg otelcol addConfig =
     (let argsMap0 = (case Args (Spec otelcol) of None \<Rightarrow> [] | Some m \<Rightarrow> m);
          exists = (go_lookup argsMap0 ''config'' \<noteq> None);
          lg = (if addConfig \<and> exists
                then [LogInfo 0 ''the 'config' flag isn't allowed and is being ignored'' []]
                else []);
          argsMap = (if addConfig \<and> exists then go_delete ''config'' argsMap0 else argsMap0);
          args = (if addConfig then [''--config=/conf/'' @ CollectorConfigMapEntry cfg] else []);
          sortedArgs = sort (map (\<lambda>(k, v). renderFlag k v) (rangeArgs ord argsMap))
      in (args @ sortedArgs, argsMap, lg))"

text \<open>
  The volume mounts (lines 219, 239 to 243, 256 to 258 and 274 to 281): the mount of
  the primary configuration, the declared mounts, one mount for each extra config map.
\<close>

definition Container_volumeMounts ::
  "Externals \<Rightarrow> AmazonCloudWatchAgent \<Rightarrow> bool \<Rightarrow> VolumeMount list" where
  "Container_volumeMounts ext otelcol addConfig =
     (if addConfig
      then [\<lparr>vm_Name = naming_ConfigMapVolume ext, vm_MountPath = ''/etc/cwagentconfig''\<rparr>]
      else [])
     @ (if length (VolumeMounts (Spec otelcol)) > 0 then VolumeMounts (Spec otelcol) else [])
     @ (if length (ConfigMaps (Spec otelcol)) > 0
        then map (\<lambda>c. \<lparr>vm_Name = naming_ConfigMapExtra ext (cm_Name c),
                        vm_MountPath = path_Join ext [''/var/conf'', cm_MountPath c,
                                                     naming_ConfigMapExtra ext (cm_Name c)]\<rparr>)
                 (ConfigMaps (Spec otelcol))
        else [])"

text \<open>The environment (lines 260 to 272 and 283).\<close>

definition Container_env :: "Externals \<Rightarrow> AmazonCloudWatchAgent \<Rightarrow> EnvVar list" where
  "Container_env ext otelcol =
     (case Env (Spec otelcol) of None \<Rightarrow> [] | Some vars \<Rightarrow> vars)
     @ [\<lparr>ev_Name = ''POD_NAME'', ev_Value = [], ev_ValueFrom = Some (FieldRef ''metadata.name'')\<rparr>]
     @ ReadProxyVarsFromEnv ext"

text \<open>
  \<open>Container\<close> returns the container; the model returns with it the flag map after the
  call (the caller's own map when \<open>Spec.Args\<close> is not \<open>nil\<close>) and what the logger
  received.
\<close>

definition Container ::
  "Externals \<Rightarrow> RangeOrder \<Rightarrow> Config \<Rightarrow> AmazonCloudWatchAgent \<Rightarrow> bool
     \<Rightarrow> Container \<times> string gomap \<times> log_entry list" where
  "Container ext ord cfg otelcol addConfig =
     (let image = (if length (Image (Spec otelcol)) = 0 then CollectorImage cfg
                   else Image (Spec otelcol))
      in case Container_ports ext otelcol of
           (ports, lgP) \<Rightarrow>
             (case Container_args ord cfg otelcol addConfig of
                (args, argsMap, lgA) \<Rightarrow>
                  (\<lparr>c_Name = naming_Container ext,
                    c_Image = image,
                    c_ImagePullPolicy = ImagePullPolicy (Spec otelcol),
                    c_Ports = portMapToList ord ports,
                    c_VolumeMounts = Container_volumeMounts ext otelcol addConfig,
                    c_Args = args,
                    c_Env = Container_env ext otelcol,
                    c_EnvFrom = EnvFrom (Spec otelcol),
                    c_Resources = Resources (Spec otelcol),
                    c_SecurityContext = SecurityContext (Spec otelcol),
                    c_Lifecycle = Lifecycle (Spec otelcol)\<rparr>,
                   argsMap, lgP @ lgA)))"

section \<open>Notions used in the statements\<close>

text \<open>
  A port map is \<open>named\<close> when its keys are pairwise distinct (as in every Go map) and
  every entry is stored under its own \<open>Name\<close>.
\<close>

definition named :: "ContainerPort gomap \<Rightarrow> bool" where
  "named m \<longleftrightarrow> distinct (map fst m) \<and> (\<forall>(k, e) \<in> set m. cp_Name e = k)"

text \<open>
  For a port \<open>p\<close> of the default table: the entry the loop of \<open>getConfigContainerPorts\<close>
  stores for it, the negation of the test under which the loop drops it, and the two
  notes the loop may log for it.
\<close>

definition defaultEntry :: "ServicePort \<Rightarrow> ContainerPort" where
  "defaultEntry p =
     \<lparr>cp_Name = Truncate (sp_Name p) maxPortLen, cp_ContainerPort = sp_Port p,
      cp_Protocol = sp_Protocol p\<rparr>"

definition validPort :: "Externals \<Rightarrow> ServicePort \<Rightarrow> bool" where
  "validPort ext p \<longleftrightarrow>
     \<not> (length (IsValidPortName ext (Truncate (sp_Name p) maxPortLen)) > 0
        \<or> length (IsValidPortNum ext (sint (sp_Port p))) > 0)"

definition droppingNote :: "Externals \<Rightarrow> ServicePort \<Rightarrow> log_entry" where
  "droppingNote ext p =
     LogInfo 0 ''dropping invalid container port''
       [(''port.name'', VString (Truncate (sp_Name p) maxPortLen)),
        (''port.num'', VInt32 (sp_Port p)),
        (''port.name.errs'', VStrings (IsValidPortName ext (Truncate (sp_Name p) maxPortLen))),
        (''num.errs'', VStrings (IsValidPortNum ext (sint (sp_Port p))))]"

definition noteTruncation :: "ServicePort \<Rightarrow> log_entry list \<Rightarrow> log_entry list" where
  "noteTruncation p lg =
     (if sp_Name p \<noteq> Truncate (sp_Name p) maxPortLen
      then lg @ [LogInfo 0 ''truncating container port name''
                   [(''port.name.prev'', VString (sp_Name p)),
                    (''port.name.new'', VString (Truncate (sp_Name p) maxPortLen))]]
      else lg)"


text \<open>The arguments after the system-generated one (present exactly when \<open>addConfig\<close>).\<close>

definition userArgs :: "bool \<Rightarrow> string list \<Rightarrow> string list" where
  "userArgs addConfig args = drop (if addConfig then 1 else 0) args"

section \<open>Sample inputs\<close>

text \<open>Concrete errors, tasks and a reconciler over a cluster that counts the calls made.\<close>

definition sample_conflict :: error where
  "sample_conflict =
     \<lparr>ErrReason = StatusReasonOther ''Conflict'', ErrCode = 409, ErrCauses = [],
      ErrMessage = ''the object has been modified''\<rparr>"

definition sample_terminating :: error where
  "sample_terminating =
     \<lparr>ErrReason = StatusReasonForbidden, ErrCode = 403, ErrCauses = [''NamespaceTerminating''],
      ErrMessage = ''namespace is being terminated''\<rparr>"

definition sample_notfound :: error where
  "sample_notfound =
     \<lparr>ErrReason = StatusReasonNotFound, ErrCode = 404, ErrCauses = [], ErrMessage = ''not found''\<rparr>"

definition sample_timeout :: error where
  "sample_timeout =
     \<lparr>ErrReason = StatusReasonOther ''Timeout'', ErrCode = 504, ErrCauses = [],
      ErrMessage = ''request timed out''\<rparr>"

definition sample_task :: "string \<Rightarrow> error option \<Rightarrow> bool \<Rightarrow> nat Task" where
  "sample_task name res bail = \<lparr>Do = (\<lambda>p w. (res, Suc w)), TaskName = name, BailOnError = bail\<rparr>"

definition sample_spec :: AmazonCloudWatchAgentSpec where
  "sample_spec =
     \<lparr>Image = [], ImagePullPolicy = ''IfNotPresent'', Config = ''{}'',
      Ports = [\<lparr>sp_Name = ''emf'', sp_Port = 9999, sp_Protocol = ''TCP''\<rparr>],
      Args = Some [(''b'', ''2''), (''config'', ''/tmp/agent.json''), (''a'', ''1'')],
      VolumeMounts = [], Env = None, ConfigMaps = [], EnvFrom = [], Resources = None,
      SecurityContext = None, Lifecycle = None\<rparr>"

definition sample_agent :: AmazonCloudWatchAgent where
  "sample_agent = \<lparr>Namespace = ''amazon-cloudwatch'', Name = ''cloudwatch-agent'', Spec = sample_spec\<rparr>"

definition sample_cfg :: Config where
  "sample_cfg = \<lparr>CollectorImage = ''cloudwatch-agent:latest'', CollectorConfigMapEntry = ''cwagentconfig.json''\<rparr>"

definition sample_params :: Params where
  "sample_params = \<lparr>p_Config = sample_cfg, p_Instance = sample_agent\<rparr>"

definition sample_reconciler :: "nat Task list \<Rightarrow> nat Reconciler" where
  "sample_reconciler ts =
     \<lparr>Get = (\<lambda>w nn. if nn_Name nn = ''deleted'' then Inl sample_notfound
                    else if nn_Name nn = ''unreachable'' then Inl sample_timeout
                    else Inr sample_agent),
      config = sample_cfg, tasks = ts\<rparr>"

text \<open>
  A default port table, stand-ins for the platform's validators (a name of at most 15
  lower-case letters, digits and hyphens; a number from 1 to 65535), and two orders of
  iteration over a map.
\<close>

definition sample_IsValidPortName :: "string \<Rightarrow> string list" where
  "sample_IsValidPortName n =
     (if n \<noteq> [] \<and> length n \<le> 15 \<and> (\<forall>c \<in> set n. c \<in> set ''abcdefghijklmnopqrstuvwxyz0123456789-'')
      then [] else [''invalid port name''])"

definition sample_IsValidPortNum :: "int \<Rightarrow> string list" where
  "sample_IsValidPortNum n =
     (if 1 \<le> n \<and> n \<le> 65535 then [] else [''must be between 1 and 65535, inclusive''])"

definition sample_ext :: Externals where
  "sample_ext =
     \<lparr>CloudwatchAgentPorts =
        [\<lparr>sp_Name = ''emf'', sp_Port = 25888, sp_Protocol = ''TCP''\<rparr>,
         \<lparr>sp_Name = ''application-signals-http'', sp_Port = 4316, sp_Protocol = ''TCP''\<rparr>,
         \<lparr>sp_Name = ''statsd'', sp_Port = 0, sp_Protocol = ''UDP''\<rparr>],
      IsValidPortName = sample_IsValidPortName,
      IsValidPortNum = sample_IsValidPortNum,
      ReadProxyVarsFromEnv = [],
      naming_ConfigMapVolume = ''otc-internal'',
      naming_Container = ''otc-container'',
      naming_ConfigMapExtra = (\<lambda>n. ''configmap-'' @ n),
      path_Join = (\<lambda>ps. concat (map (\<lambda>p. CHR ''/'' # p) ps))\<rparr>"

definition sample_order :: RangeOrder where
  "sample_order = \<lparr>rangeArgs = (\<lambda>m. m), rangePorts = (\<lambda>m. m)\<rparr>"

definition sample_order_rev :: RangeOrder where
  "sample_order_rev = \<lparr>rangeArgs = rev, rangePorts = rev\<rparr>"

definition sample_proxy :: "EnvVar list" where
  "sample_proxy =
     [\<lparr>ev_Name = ''HTTP_PROXY'', ev_Value = ''http://proxy.internal:3128'', ev_ValueFrom = None\<rparr>,
      \<lparr>ev_Name = ''http_proxy'', ev_Value = ''http://proxy.internal:3128'', ev_ValueFrom = None\<rparr>]"

definition sample_agent_no_ports :: AmazonCloudWatchAgent where
  "sample_agent_no_ports = sample_agent\<lparr>Spec := sample_spec\<lparr>Ports := []\<rparr>\<rparr>"

definition sample_agent_with_args :: "string gomap \<Rightarrow> AmazonCloudWatchAgent" where
  "sample_agent_with_args m = sample_agent\<lparr>Spec := sample_spec\<lparr>Args := Some m\<rparr>\<rparr>"

section \<open>The task pipeline\<close>

text \<open>One step of the loop, by what the task's action returned.\<close>

lemma RunTasks_loop_Cons:
  assumes "RunTasks_loop (t # ts) p st = (r, st')"
  obtains
    (ok) st1 where "fst (Do t p (world st)) = None" "calls st1 = calls st @ [None]"
      "RunTasks_loop ts p st1 = (r, st')" "world st1 = snd (Do t p (world st))"
  | (halt) e where "fst (Do t p (world st)) = Some e" "calls st' = calls st @ [Some e]"
      "IsForbidden e \<and> HasStatusCause e NamespaceTerminatingCause" "r = None"
      "world st' = snd (Do t p (world st))"
  | (bail) e where "fst (Do t p (world st)) = Some e" "calls st' = calls st @ [Some e]"
      "\<not> (IsForbidden e \<and> HasStatusCause e NamespaceTerminatingCause)" "BailOnError t" "r = Some e"
      "world st' = snd (Do t p (world st))"
  | (skip) e st1 where "fst (Do t p (world st)) = Some e" "calls st1 = calls st @ [Some e]"
      "\<not> (IsForbidden e \<and> HasStatusCause e NamespaceTerminatingCause)" "\<not> BailOnError t"
      "RunTasks_loop ts p st1 = (r, st')" "world st1 = snd (Do t p (world st))"
proof -
  obtain r0 w' where d: "Do t p (world st) = (r0, w')" by (cases "Do t p (world st)")
  show thesis
  proof (cases r0)
    case None
    with assms d show thesis
      by (intro ok[of "st\<lparr>world := w', calls := calls st @ [None]\<rparr>"]) simp_all
  next
    case (Some e)
    show thesis
    proof (cases "IsForbidden e \<and> HasStatusCause e NamespaceTerminatingCause")
      case True
      with assms d Some show thesis by (intro halt[of e]) auto
    next
      case False
      show thesis
      proof (cases "BailOnError t")
        case True
        with assms d Some False show thesis by (intro bail[of e]) auto
      next
        case nb: False
        with assms d Some False show thesis
          by (intro skip[of e "st\<lparr>world := w', calls := calls st @ [Some e],
                 logs := logs st @ [LogError e (''failed to reconcile '' @ TaskName t)]\<rparr>"])
             (auto simp: Let_def)
      qed
    qed
  qed
qed

text \<open>A run only appends to the record of calls, at most one entry for each task.\<close>

lemma RunTasks_loop_calls:
  "RunTasks_loop ts p st = (r, st') \<Longrightarrow>
     \<exists>outs. calls st' = calls st @ outs \<and> length outs \<le> length ts"
proof (induction ts arbitrary: st)
  case Nil
  then show ?case by simp
next
  case (Cons t ts)
  from Cons.prems show ?case
  proof (cases rule: RunTasks_loop_Cons)
    case (ok st1)
    from Cons.IH[OF ok(3)] ok(2) show ?thesis by auto
  next
    case (skip e st1)
    from Cons.IH[OF skip(5)] skip(2) show ?thesis by auto
  qed auto
qed

text \<open>Entry \<open>k\<close> of the record is what the action of task \<open>k\<close> returned.\<close>

lemma RunTasks_loop_calls_nth:
  "RunTasks_loop ts p st = (r, st') \<Longrightarrow> length (calls st) + k < length (calls st') \<Longrightarrow>
     k < length ts \<and> (\<exists>w. calls st' ! (length (calls st) + k) = fst (Do (ts ! k) p w))"
proof (induction ts arbitrary: st k)
  case Nil
  then show ?case by simp
next
  case (Cons t ts)
  from Cons.prems(1) show ?case
  proof (cases rule: RunTasks_loop_Cons)
    case (ok st1)
    from RunTasks_loop_calls[OF ok(3)] ok(2)
    obtain outs where o: "calls st' = calls st @ None # outs" by auto
    show ?thesis
    proof (cases k)
      case 0
      with o ok(1) show ?thesis by (auto intro: exI[of _ "world st"])
    next
      case (Suc k')
      have "length (calls st1) + k' = length (calls st) + k" using ok(2) Suc by simp
      with Cons.IH[OF ok(3), of k'] Cons.prems Suc show ?thesis by simp
    qed
  next
    case (halt e)
    with Cons.prems show ?thesis by (cases k) (auto intro: exI[of _ "world st"])
  next
    case (bail e)
    with Cons.prems show ?thesis by (cases k) (auto intro: exI[of _ "world st"])
  next
    case (skip e st1)
    from RunTasks_loop_calls[OF skip(5)] skip(2)
    obtain outs where o: "calls st' = calls st @ Some e # outs" by auto
    show ?thesis
    proof (cases k)
      case 0
      with o skip(1) show ?thesis by (auto intro: exI[of _ "world st"])
    next
      case (Suc k')
      have "length (calls st1) + k' = length (calls st) + k" using skip(2) Suc by simp
      with Cons.IH[OF skip(5), of k'] Cons.prems Suc show ?thesis by simp
    qed
  qed
qed

text \<open>
  A failure that is namespace-terminating, or any failure of a bail-on-error task, is
  the last call of the run and decides the result.
\<close>

lemma RunTasks_loop_stops:
  "RunTasks_loop ts p st = (r, st') \<Longrightarrow>
   length (calls st) + k < length (calls st') \<Longrightarrow>
   calls st' ! (length (calls st) + k) = Some e \<Longrightarrow>
   (IsForbidden e \<and> HasStatusCause e NamespaceTerminatingCause) \<or> BailOnError (ts ! k) \<Longrightarrow>
   length (calls st') = length (calls st) + k + 1 \<and>
   r = (if IsForbidden e \<and> HasStatusCause e NamespaceTerminatingCause then None else Some e)"
proof (induction ts arbitrary: st k)
  case Nil
  then show ?case by simp
next
  case (Cons t ts)
  from Cons.prems(1) show ?case
  proof (cases rule: RunTasks_loop_Cons)
    case (ok st1)
    from RunTasks_loop_calls[OF ok(3)] ok(2)
    obtain outs where o: "calls st' = calls st @ None # outs" by auto
    with Cons.prems(3) obtain k' where k: "k = Suc k'" by (cases k) auto
    have "length (calls st1) + k' = length (calls st) + k" using ok(2) k by simp
    with Cons.IH[OF ok(3), of k'] Cons.prems k show ?thesis by simp
  next
    case (halt e')
    with Cons.prems show ?thesis by (cases k) auto
  next
    case (bail e')
    with Cons.prems show ?thesis by (cases k) auto
  next
    case (skip e' st1)
    from RunTasks_loop_calls[OF skip(5)] skip(2)
    obtain outs where o: "calls st' = calls st @ Some e' # outs" by auto
    have "k \<noteq> 0"
    proof
      assume "k = 0"
      with Cons.prems(3) o have "e' = e" by simp
      with Cons.prems(4) skip(3,4) \<open>k = 0\<close> show False by simp
    qed
    then obtain k' where k: "k = Suc k'" by (cases k) auto
    have "length (calls st1) + k' = length (calls st) + k" using skip(2) k by simp
    with Cons.IH[OF skip(5), of k'] Cons.prems k show ?thesis by simp
  qed
qed



lemma RunTasks_calls_are_task_results:
  assumes "RunTasks r params w = (res, st)" and "k < length (calls st)"
  shows "k < length (tasks r) \<and> (\<exists>w'. calls st ! k = fst (Do (tasks r ! k) params w'))"
  using RunTasks_loop_calls_nth[of "tasks r" params "\<lparr>world = w, calls = [], logs = []\<rparr>" res st k] assms
  by (simp add: RunTasks_def)



text \<open>
  C3. If the action of a task returns a forbidden-operation error that carries the
  namespace-terminating cause, the call of that task is the last call of the run and
  \<open>RunTasks\<close> returns \<open>nil\<close>, whatever the task's \<open>BailOnError\<close> flag is.
\<close>

theorem RunTasks_namespace_terminating:
  assumes "RunTasks r params w = (res, st)"
    and "k < length (calls st)" and "calls st ! k = Some e"
    and "IsForbidden e" and "HasStatusCause e NamespaceTerminatingCause"
  shows "res = None \<and> length (calls st) = Suc k"
  using RunTasks_loop_stops[of "tasks r" params "\<lparr>world = w, calls = [], logs = []\<rparr>" res st k e] assms
  by (simp add: RunTasks_def)

theorem RunTasks_namespace_terminating_witness:
  "(fst (RunTasks (sample_reconciler
       [sample_task ''config maps'' None True,
        sample_task ''services'' (Some sample_terminating) True,
        sample_task ''deployments'' None True]) sample_params 0) = None
    \<and> length (calls (snd (RunTasks (sample_reconciler
       [sample_task ''config maps'' None True,
        sample_task ''services'' (Some sample_terminating) True,
        sample_task ''deployments'' None True]) sample_params 0))) = Suc 1)
   \<and> (fst (RunTasks (sample_reconciler
       [sample_task ''config maps'' (Some sample_terminating) False,
        sample_task ''services'' None True]) sample_params 0) = None
    \<and> length (calls (snd (RunTasks (sample_reconciler
       [sample_task ''config maps'' (Some sample_terminating) False,
        sample_task ''services'' None True]) sample_params 0))) = Suc 0)"
proof -
  let ?r = "sample_reconciler
       [sample_task ''config maps'' None True,
        sample_task ''services'' (Some sample_terminating) True,
        sample_task ''deployments'' None True]"
  let ?out = "RunTasks ?r sample_params 0"
  let ?r' = "sample_reconciler
       [sample_task ''config maps'' (Some sample_terminating) False,
        sample_task ''services'' None True]"
  let ?out' = "RunTasks ?r' sample_params 0"
  have f: "IsForbidden sample_terminating"
    and h: "HasStatusCause sample_terminating NamespaceTerminatingCause"
    by (simp_all add: sample_terminating_def IsForbidden_def HasStatusCause_def
        NamespaceTerminatingCause_def)
  have run: "calls (snd ?out) = [None, Some sample_terminating]"
    using f h by (simp add: RunTasks_def sample_reconciler_def sample_task_def)
  have run': "calls (snd ?out') = [Some sample_terminating]"
    using f h by (simp add: RunTasks_def sample_reconciler_def sample_task_def)
  have p: "?out = (fst ?out, snd ?out)" and p': "?out' = (fst ?out', snd ?out')" by simp_all
  have k: "1 < length (calls (snd ?out))" and c: "calls (snd ?out) ! 1 = Some sample_terminating"
    by (simp_all add: run)
  have k': "0 < length (calls (snd ?out'))" and c': "calls (snd ?out') ! 0 = Some sample_terminating"
    by (simp_all add: run')
  from RunTasks_namespace_terminating[OF p k c f h]
       RunTasks_namespace_terminating[OF p' k' c' f h]
  show ?thesis by blast
qed





text \<open>
  C5. If the fetch of the custom resource returns a not-found error, \<open>Reconcile\<close>
  returns a \<open>nil\<close> error and calls no task; if the fetch returns any other error,
  \<open>Reconcile\<close> returns that error and calls no task; if the fetch succeeds, \<open>Reconcile\<close>
  runs \<open>RunTasks\<close> on the fetched instance and returns the error \<open>RunTasks\<close> returns.
\<close>

theorem Reconcile_fetch:
  "(\<forall>e. Get r w req = Inl e \<and> IsNotFound e \<longrightarrow>
       snd (fst (Reconcile r req w)) = None \<and> calls (snd (Reconcile r req w)) = []
       \<and> world (snd (Reconcile r req w)) = w)
   \<and> (\<forall>e. Get r w req = Inl e \<and> \<not> IsNotFound e \<longrightarrow>
       snd (fst (Reconcile r req w)) = Some e \<and> calls (snd (Reconcile r req w)) = []
       \<and> world (snd (Reconcile r req w)) = w)
   \<and> (\<forall>inst. Get r w req = Inr inst \<longrightarrow>
       snd (fst (Reconcile r req w))
         = fst (RunTasks r \<lparr>p_Config = config r, p_Instance = inst\<rparr> w)
       \<and> snd (Reconcile r req w)
         = snd (RunTasks r \<lparr>p_Config = config r, p_Instance = inst\<rparr> w))"
  by (auto simp: Reconcile_def IgnoreNotFound_def Let_def split: sum.splits prod.splits option.splits)

theorem Reconcile_fetch_witness:
  "(snd (fst (Reconcile (sample_reconciler [sample_task ''config maps'' None True])
            \<lparr>nn_Namespace = ''amazon-cloudwatch'', nn_Name = ''deleted''\<rparr> 0)) = None
    \<and> calls (snd (Reconcile (sample_reconciler [sample_task ''config maps'' None True])
            \<lparr>nn_Namespace = ''amazon-cloudwatch'', nn_Name = ''deleted''\<rparr> 0)) = [])
   \<and> (snd (fst (Reconcile (sample_reconciler [sample_task ''config maps'' None True])
            \<lparr>nn_Namespace = ''amazon-cloudwatch'', nn_Name = ''unreachable''\<rparr> 0)) = Some sample_timeout
    \<and> calls (snd (Reconcile (sample_reconciler [sample_task ''config maps'' None True])
            \<lparr>nn_Namespace = ''amazon-cloudwatch'', nn_Name = ''unreachable''\<rparr> 0)) = [])
   \<and> snd (fst (Reconcile (sample_reconciler [sample_task ''config maps'' (Some sample_conflict) True])
            \<lparr>nn_Namespace = ''amazon-cloudwatch'', nn_Name = ''cloudwatch-agent''\<rparr> 0))
       = fst (RunTasks (sample_reconciler [sample_task ''config maps'' (Some sample_conflict) True])
            \<lparr>p_Config = sample_cfg, p_Instance = sample_agent\<rparr> 0)"
proof -
  let ?r = "sample_reconciler [sample_task ''config maps'' None True]"
  let ?r' = "sample_reconciler [sample_task ''config maps'' (Some sample_conflict) True]"
  let ?d = "\<lparr>nn_Namespace = ''amazon-cloudwatch'', nn_Name = ''deleted''\<rparr>"
  let ?u = "\<lparr>nn_Namespace = ''amazon-cloudwatch'', nn_Name = ''unreachable''\<rparr>"
  let ?a = "\<lparr>nn_Namespace = ''amazon-cloudwatch'', nn_Name = ''cloudwatch-agent''\<rparr>"
  have d: "Get ?r 0 ?d = Inl sample_notfound \<and> IsNotFound sample_notfound"
    by (simp add: sample_reconciler_def sample_notfound_def IsNotFound_def)
  have u: "Get ?r 0 ?u = Inl sample_timeout \<and> \<not> IsNotFound sample_timeout"
    by (simp add: sample_reconciler_def sample_timeout_def IsNotFound_def)
  have a: "Get ?r' 0 ?a = Inr sample_agent" and c: "config ?r' = sample_cfg"
    by (simp_all add: sample_reconciler_def)
  from Reconcile_fetch[of ?r 0 ?d] d
  have 1: "snd (fst (Reconcile ?r ?d 0)) = None \<and> calls (snd (Reconcile ?r ?d 0)) = []" by blast
  from Reconcile_fetch[of ?r 0 ?u] u
  have 2: "snd (fst (Reconcile ?r ?u 0)) = Some sample_timeout \<and> calls (snd (Reconcile ?r ?u 0)) = []"
    by blast
  from Reconcile_fetch[of ?r' 0 ?a] a
  have "snd (fst (Reconcile ?r' ?a 0))
       = fst (RunTasks ?r' \<lparr>p_Config = config ?r', p_Instance = sample_agent\<rparr> 0)" by blast
  with c have 3: "snd (fst (Reconcile ?r' ?a 0))
       = fst (RunTasks ?r' \<lparr>p_Config = sample_cfg, p_Instance = sample_agent\<rparr> 0)" by simp
  from 1 2 3 show ?thesis by blast
qed

section \<open>The port list\<close>

subsection \<open>Assignments to a Go map\<close>

lemma set_go_assign: "set (go_assign k v m) \<subseteq> insert (k, v) (set m)"
  unfolding go_assign_def by (induction m) auto

lemma map_of_go_assign: "map_of (go_assign k v m) = (map_of m)(k \<mapsto> v)"
  by (simp add: go_assign_def update_conv')

lemma keys_go_assign: "fst ` set (go_assign k v m) = insert k (fst ` set m)"
  by (simp add: go_assign_def dom_update)

lemma distinct_go_assign: "distinct (map fst m) \<Longrightarrow> distinct (map fst (go_assign k v m))"
  by (simp add: go_assign_def distinct_update)

lemma named_go_assign: "named m \<Longrightarrow> cp_Name e = k \<Longrightarrow> named (go_assign k e m)"
  unfolding named_def using set_go_assign[of k e m] by (auto simp: distinct_go_assign)

lemma overlayPorts_append: "overlayPorts (ps @ qs) m = overlayPorts qs (overlayPorts ps m)"
  by (simp add: overlayPorts_def)

lemma overlayPorts_Nil: "overlayPorts [] m = m"
  by (simp add: overlayPorts_def)

lemma overlayPorts_Cons:
  "overlayPorts (p # ps) m =
     overlayPorts ps (go_assign (sp_Name p)
        \<lparr>cp_Name = sp_Name p, cp_ContainerPort = sp_Port p, cp_Protocol = sp_Protocol p\<rparr> m)"
  by (simp add: overlayPorts_def)

lemma named_overlayPorts: "named m \<Longrightarrow> named (overlayPorts ps m)"
proof (induction ps arbitrary: m)
  case Nil
  then show ?case by (simp add: overlayPorts_Nil)
next
  case (Cons p ps)
  from Cons.prems have "named (go_assign (sp_Name p)
        \<lparr>cp_Name = sp_Name p, cp_ContainerPort = sp_Port p, cp_Protocol = sp_Protocol p\<rparr> m)"
    by (intro named_go_assign) simp_all
  from Cons.IH[OF this] show ?case by (simp add: overlayPorts_Cons)
qed

lemma map_of_overlayPorts_other:
  "n \<notin> sp_Name ` set ps \<Longrightarrow> map_of (overlayPorts ps m) n = map_of m n"
  by (induction ps arbitrary: m) (auto simp: overlayPorts_Nil overlayPorts_Cons map_of_go_assign)

lemma map_of_overlayPorts_last:
  assumes "sp_Name p \<notin> sp_Name ` set post"
  shows "map_of (overlayPorts (pre @ p # post) m) (sp_Name p) =
     Some \<lparr>cp_Name = sp_Name p, cp_ContainerPort = sp_Port p, cp_Protocol = sp_Protocol p\<rparr>"
  using assms
  by (simp add: overlayPorts_append overlayPorts_Cons map_of_overlayPorts_other map_of_go_assign)

lemma named_default_ports:
  "named (fst acc) \<Longrightarrow> named (fst (getConfigContainerPorts_loop ext ps acc))"
proof (induction ps arbitrary: acc)
  case Nil
  then show ?case by simp
next
  case (Cons p ps)
  obtain m lg where acc: "acc = (m, lg)" by (cases acc)
  with Cons.prems have "named m" by simp
  then have "named (go_assign (Truncate (sp_Name p) maxPortLen)
       \<lparr>cp_Name = Truncate (sp_Name p) maxPortLen, cp_ContainerPort = sp_Port p,
        cp_Protocol = sp_Protocol p\<rparr> m)"
    by (intro named_go_assign) simp_all
  with \<open>named m\<close> show ?case unfolding acc
    by (simp add: Let_def Cons.IH)
qed

lemma named_Container_ports: "named (fst (Container_ports ext otelcol))"
proof -
  have "named (fst (getConfigContainerPorts_loop ext (CloudwatchAgentPorts ext) ([], [])))"
    by (intro named_default_ports) (simp add: named_def)
  then show ?thesis
    by (auto simp: Container_ports_def getConfigContainerPorts_def named_overlayPorts
        split: prod.splits)
qed

lemma Container_ports_overlay:
  "\<exists>m. fst (Container_ports ext otelcol) = overlayPorts (Ports (Spec otelcol)) m"
  by (auto simp: Container_ports_def getConfigContainerPorts_def split: prod.splits)

subsection \<open>The sorted list\<close>

lemma portMapToList_sorted: "sorted (map cp_Name (portMapToList ord m))"
  by (simp add: portMapToList_def)

lemma names_of_named: "named m \<Longrightarrow> map (cp_Name \<circ> snd) m = map fst m"
  by (auto simp: named_def)

lemma portMapToList_mset:
  assumes "admissible ord"
  shows "mset (portMapToList ord m) = image_mset snd (mset m)"
proof -
  from assms have "mset (rangePorts ord m) = mset m" by (simp add: admissible_def)
  then have "mset (map snd (rangePorts ord m)) = mset (map snd m)"
    by (metis mset_map)
  then show ?thesis by (simp add: portMapToList_def)
qed

lemma portMapToList_set:
  assumes "admissible ord"
  shows "set (portMapToList ord m) = snd ` set m"
  using portMapToList_mset[OF assms, of m] by (metis set_mset_mset set_image_mset)

lemma portMapToList_distinct:
  assumes "admissible ord" and "named m"
  shows "distinct (map cp_Name (portMapToList ord m))"
proof -
  have "mset (map cp_Name (portMapToList ord m)) = image_mset cp_Name (image_mset snd (mset m))"
    by (simp add: portMapToList_mset[OF assms(1)])
  also have "\<dots> = image_mset (cp_Name \<circ> snd) (mset m)"
    by (simp add: multiset.map_comp)
  also have "\<dots> = image_mset fst (mset m)"
    by (rule image_mset_cong) (use assms(2) in \<open>auto simp: named_def\<close>)
  finally have "mset (map cp_Name (portMapToList ord m)) = mset (map fst m)" by simp
  moreover have "distinct (map fst m)" using assms(2) by (simp add: named_def)
  ultimately show ?thesis by (metis mset_eq_imp_distinct_iff)
qed

lemma portMapToList_order_irrelevant:
  assumes "admissible ord" and "admissible ord'" and "named m"
  shows "portMapToList ord m = portMapToList ord' m"
proof -
  show ?thesis
  proof (rule map_sorted_distinct_set_unique[where f = cp_Name])
    show "inj_on cp_Name (set (portMapToList ord m) \<union> set (portMapToList ord' m))"
      using portMapToList_distinct[OF assms(1,3)] portMapToList_set[OF assms(1), of m]
        portMapToList_set[OF assms(2), of m]
      by (simp add: distinct_map)
  qed (simp_all add: portMapToList_sorted portMapToList_distinct assms portMapToList_set)
qed

lemma filter_unique_key:
  "distinct (map f xs) \<Longrightarrow> x \<in> set xs \<Longrightarrow> filter (\<lambda>y. f y = f x) xs = [x]"
proof (induction xs)
  case Nil
  then show ?case by simp
next
  case (Cons a xs)
  show ?case
  proof (cases "a = x")
    case True
    with Cons.prems have "f x \<notin> f ` set xs" by simp
    then have "\<forall>y \<in> set xs. f y \<noteq> f x" by (metis image_eqI)
    then have "filter (\<lambda>y. f y = f x) xs = []" by (simp add: filter_empty_conv)
    with True show ?thesis by simp
  next
    case False
    with Cons show ?thesis by auto
  qed
qed


subsection \<open>The default ports\<close>

lemma default_ports_Cons:
  "getConfigContainerPorts_loop ext (p # ps) (m, lg) =
     (if validPort ext p
      then getConfigContainerPorts_loop ext ps
             (go_assign (Truncate (sp_Name p) maxPortLen) (defaultEntry p) m, noteTruncation p lg)
      else getConfigContainerPorts_loop ext ps (m, noteTruncation p lg @ [droppingNote ext p]))"
  by (simp add: validPort_def defaultEntry_def droppingNote_def noteTruncation_def Let_def)

lemma default_ports_Cons_valid:
  "validPort ext p \<Longrightarrow>
     \<exists>lg'. set lg \<subseteq> set lg' \<and>
       getConfigContainerPorts_loop ext (p # ps) (m, lg) =
       getConfigContainerPorts_loop ext ps
         (go_assign (Truncate (sp_Name p) maxPortLen) (defaultEntry p) m, lg')"
  by (intro exI[of _ "noteTruncation p lg"])
     (auto simp: default_ports_Cons noteTruncation_def simp del: getConfigContainerPorts_loop.simps)

lemma default_ports_Cons_invalid:
  "\<not> validPort ext p \<Longrightarrow>
     \<exists>lg'. set lg \<subseteq> set lg' \<and>
       getConfigContainerPorts_loop ext (p # ps) (m, lg) =
       getConfigContainerPorts_loop ext ps (m, lg' @ [droppingNote ext p])"
  by (intro exI[of _ "noteTruncation p lg"])
     (auto simp: default_ports_Cons noteTruncation_def simp del: getConfigContainerPorts_loop.simps)

lemma default_ports_mono:
  "fst ` set (fst acc) \<subseteq> fst ` set (fst (getConfigContainerPorts_loop ext ps acc))
   \<and> set (snd acc) \<subseteq> set (snd (getConfigContainerPorts_loop ext ps acc))"
proof (induction ps arbitrary: acc)
  case Nil
  then show ?case by simp
next
  case (Cons p ps)
  obtain m lg where acc: "acc = (m, lg)" by (cases acc)
  show ?case
  proof (cases "validPort ext p")
    case True
    from default_ports_Cons_valid[OF True, of lg ps m] obtain lg' where
      "set lg \<subseteq> set lg'"
      "getConfigContainerPorts_loop ext (p # ps) (m, lg) =
       getConfigContainerPorts_loop ext ps
         (go_assign (Truncate (sp_Name p) maxPortLen) (defaultEntry p) m, lg')" by blast
    with Cons.IH[of "(go_assign (Truncate (sp_Name p) maxPortLen) (defaultEntry p) m, lg')"]
    show ?thesis unfolding acc by (auto simp: keys_go_assign)
  next
    case False
    from default_ports_Cons_invalid[OF False, of lg ps m] obtain lg' where
      "set lg \<subseteq> set lg'"
      "getConfigContainerPorts_loop ext (p # ps) (m, lg) =
       getConfigContainerPorts_loop ext ps (m, lg' @ [droppingNote ext p])" by blast
    with Cons.IH[of "(m, lg' @ [droppingNote ext p])"]
    show ?thesis unfolding acc by auto
  qed
qed

lemma default_ports_entries:
  "(k, e) \<in> set (fst (getConfigContainerPorts_loop ext ps acc)) \<Longrightarrow>
     (k, e) \<in> set (fst acc) \<or>
     (\<exists>p \<in> set ps. validPort ext p \<and> k = Truncate (sp_Name p) maxPortLen \<and> e = defaultEntry p)"
proof (induction ps arbitrary: acc)
  case Nil
  then show ?case by simp
next
  case (Cons p ps)
  obtain m lg where acc: "acc = (m, lg)" by (cases acc)
  show ?case
  proof (cases "validPort ext p")
    case True
    from default_ports_Cons_valid[OF True, of lg ps m] obtain lg' where
      eq: "getConfigContainerPorts_loop ext (p # ps) (m, lg) =
       getConfigContainerPorts_loop ext ps
         (go_assign (Truncate (sp_Name p) maxPortLen) (defaultEntry p) m, lg')" by blast
    from Cons.prems[unfolded acc eq] Cons.IH
    have "(k, e) \<in> set (go_assign (Truncate (sp_Name p) maxPortLen) (defaultEntry p) m) \<or>
      (\<exists>p \<in> set ps. validPort ext p \<and> k = Truncate (sp_Name p) maxPortLen \<and> e = defaultEntry p)"
      by fastforce
    with set_go_assign[of "Truncate (sp_Name p) maxPortLen" "defaultEntry p" m] True
    show ?thesis unfolding acc by auto
  next
    case False
    from default_ports_Cons_invalid[OF False, of lg ps m] obtain lg' where
      eq: "getConfigContainerPorts_loop ext (p # ps) (m, lg) =
       getConfigContainerPorts_loop ext ps (m, lg' @ [droppingNote ext p])" by blast
    from Cons.prems[unfolded acc eq] Cons.IH
    show ?thesis unfolding acc by fastforce
  qed
qed

lemma default_ports_valid_kept:
  "p \<in> set ps \<Longrightarrow> validPort ext p \<Longrightarrow>
     Truncate (sp_Name p) maxPortLen \<in> fst ` set (fst (getConfigContainerPorts_loop ext ps acc))"
proof (induction ps arbitrary: acc)
  case Nil
  then show ?case by simp
next
  case (Cons q ps)
  obtain m lg where acc: "acc = (m, lg)" by (cases acc)
  show ?case
  proof (cases "validPort ext q")
    case True
    from default_ports_Cons_valid[OF True, of lg ps m] obtain lg' where
      eq: "getConfigContainerPorts_loop ext (q # ps) (m, lg) =
       getConfigContainerPorts_loop ext ps
         (go_assign (Truncate (sp_Name q) maxPortLen) (defaultEntry q) m, lg')" by blast
    show ?thesis
    proof (cases "p = q")
      case True
      have "Truncate (sp_Name q) maxPortLen
          \<in> fst ` set (fst (go_assign (Truncate (sp_Name q) maxPortLen) (defaultEntry q) m, lg'))"
        by (simp add: keys_go_assign)
      with default_ports_mono[of "(go_assign (Truncate (sp_Name q) maxPortLen) (defaultEntry q) m, lg')" ext ps]
      show ?thesis unfolding acc eq True by blast
    next
      case False
      with Cons.prems have "p \<in> set ps" by simp
      from Cons.IH[OF this Cons.prems(2)] show ?thesis unfolding acc eq .
    qed
  next
    case False
    with Cons.prems have "p \<in> set ps" by auto
    from default_ports_Cons_invalid[OF False, of lg ps m] obtain lg' where
      eq: "getConfigContainerPorts_loop ext (q # ps) (m, lg) =
       getConfigContainerPorts_loop ext ps (m, lg' @ [droppingNote ext q])" by blast
    from Cons.IH[OF \<open>p \<in> set ps\<close> Cons.prems(2)] show ?thesis unfolding acc eq .
  qed
qed

lemma default_ports_invalid_noted:
  "p \<in> set ps \<Longrightarrow> \<not> validPort ext p \<Longrightarrow>
     droppingNote ext p \<in> set (snd (getConfigContainerPorts_loop ext ps acc))"
proof (induction ps arbitrary: acc)
  case Nil
  then show ?case by simp
next
  case (Cons q ps)
  obtain m lg where acc: "acc = (m, lg)" by (cases acc)
  show ?case
  proof (cases "validPort ext q")
    case True
    with Cons.prems have "p \<in> set ps" by auto
    from default_ports_Cons_valid[OF True, of lg ps m] obtain lg' where
      eq: "getConfigContainerPorts_loop ext (q # ps) (m, lg) =
       getConfigContainerPorts_loop ext ps
         (go_assign (Truncate (sp_Name q) maxPortLen) (defaultEntry q) m, lg')" by blast
    from Cons.IH[OF \<open>p \<in> set ps\<close> Cons.prems(2)] show ?thesis unfolding acc eq .
  next
    case False
    from default_ports_Cons_invalid[OF False, of lg ps m] obtain lg' where
      eq: "getConfigContainerPorts_loop ext (q # ps) (m, lg) =
       getConfigContainerPorts_loop ext ps (m, lg' @ [droppingNote ext q])" by blast
    show ?thesis
    proof (cases "p = q")
      case True
      have "droppingNote ext q \<in> set (snd (m, lg' @ [droppingNote ext q]))" by simp
      with default_ports_mono[of "(m, lg' @ [droppingNote ext q])" ext ps]
      show ?thesis unfolding acc eq True by blast
    next
      case False
      with Cons.prems have "p \<in> set ps" by simp
      from Cons.IH[OF this Cons.prems(2)] show ?thesis unfolding acc eq .
    qed
  qed
qed

section \<open>The argument list\<close>

lemma Container_c_Ports:
  "c_Ports (fst (Container ext ord cfg otelcol addConfig)) =
     portMapToList ord (fst (Container_ports ext otelcol))"
  by (simp add: Container_def Let_def split: prod.splits)

lemma Container_c_Env:
  "c_Env (fst (Container ext ord cfg otelcol addConfig)) = Container_env ext otelcol"
  by (simp add: Container_def Let_def split: prod.splits)

lemma Container_c_Args:
  "c_Args (fst (Container ext ord cfg otelcol addConfig)) =
     fst (Container_args ord cfg otelcol addConfig)"
  by (simp add: Container_def Let_def split: prod.splits)

lemma sort_rangeArgs:
  assumes "admissible ord"
  shows "sort (map f (rangeArgs ord m)) = sort (map f m)"
proof (rule properties_for_sort)
  from assms have "mset (rangeArgs ord m) = mset m" by (simp add: admissible_def)
  then show "mset (sort (map f m)) = mset (map f (rangeArgs ord m))" by simp
qed simp

lemma go_delete_absent: "go_lookup m k = None \<Longrightarrow> go_delete k m = m"
  by (simp add: go_lookup_def go_delete_def map_of_eq_None_iff)

lemma go_delete_filter: "go_delete k m = filter (\<lambda>(k', v). k' \<noteq> k) m"
  by (auto simp: go_delete_def AList.delete_eq intro: filter_cong)

lemma Container_args_closed:
  assumes "admissible ord"
  shows "fst (Container_args ord cfg otelcol addConfig) =
     (if addConfig then [''--config=/conf/'' @ CollectorConfigMapEntry cfg] else [])
     @ sort (map (\<lambda>(k, v). renderFlag k v)
          (if addConfig
           then filter (\<lambda>(k, v). k \<noteq> ''config'')
                  (case Args (Spec otelcol) of None \<Rightarrow> [] | Some m \<Rightarrow> m)
           else (case Args (Spec otelcol) of None \<Rightarrow> [] | Some m \<Rightarrow> m)))"
proof -
  let ?m = "case Args (Spec otelcol) of None \<Rightarrow> [] | Some m \<Rightarrow> m"
  have "(if addConfig \<and> go_lookup ?m ''config'' \<noteq> None then go_delete ''config'' ?m else ?m)
      = (if addConfig then filter (\<lambda>(k, v). k \<noteq> ''config'') ?m else ?m)"
    using go_delete_absent[of ?m "''config''"] by (auto simp: go_delete_filter)
  then show ?thesis
    by (simp add: Container_args_def Let_def sort_rangeArgs[OF assms])
qed

lemma sort_mset_eq: "mset xs = mset ys \<Longrightarrow> sort xs = sort ys"
  by (rule properties_for_sort) simp_all

text \<open>The first occurrence of a separator decides what stands before it.\<close>

lemma split_at_first:
  assumes "xs @ c # ys = us @ c # vs" and "c \<notin> set xs" and "c \<notin> set us"
  shows "xs = us"
proof -
  have "takeWhile (\<lambda>x. x \<noteq> c) (xs @ c # ys) = xs" using assms(2)
    by (induction xs) auto
  moreover have "takeWhile (\<lambda>x. x \<noteq> c) (us @ c # vs) = us" using assms(3)
    by (induction us) auto
  ultimately show ?thesis using assms(1) by simp
qed

lemma renderFlag_not_config:
  assumes "k \<noteq> ''config''" and "CHR ''='' \<notin> set k"
  shows "take 9 (renderFlag k v) \<noteq> ''--config=''"
proof
  assume t: "take 9 (renderFlag k v) = ''--config=''"
  have "renderFlag k v = take 9 (renderFlag k v) @ drop 9 (renderFlag k v)" by simp
  with t have "''--'' @ k @ ''='' @ v = ''--config='' @ drop 9 (renderFlag k v)"
    by (simp add: renderFlag_def)
  then have "k @ CHR ''='' # v = ''config'' @ CHR ''='' # drop 9 (renderFlag k v)" by simp
  from split_at_first[OF this assms(2)] have "k = ''config''" by simp
  with assms(1) show False by simp
qed


lemma admissible_sample_order: "admissible sample_order"
  by (simp add: admissible_def sample_order_def)

lemma admissible_sample_order_rev: "admissible sample_order_rev"
  by (simp add: admissible_def sample_order_rev_def)

lemma Container_args_order:
  "admissible ord \<Longrightarrow> admissible ord' \<Longrightarrow>
     Container_args ord cfg otelcol addConfig = Container_args ord' cfg otelcol addConfig"
  by (simp add: Container_args_def Let_def sort_rangeArgs)


section \<open>The container\<close>

lemma sample_ports_example:
  "c_Ports (fst (Container sample_ext sample_order sample_cfg sample_agent True))
     = [\<lparr>cp_Name = ''application-sig'', cp_ContainerPort = 4316, cp_Protocol = ''TCP''\<rparr>,
        \<lparr>cp_Name = ''emf'', cp_ContainerPort = 9999, cp_Protocol = ''TCP''\<rparr>]"
  by (simp add: Container_c_Ports Container_ports_def getConfigContainerPorts_def sample_ext_def
      sample_order_def sample_agent_def sample_spec_def portMapToList_def overlayPorts_def
      Truncate_def maxPortLen_def sample_IsValidPortName_def sample_IsValidPortNum_def go_assign_def
      Let_def)

lemma sample_no_ports_example:
  "c_Ports (fst (Container sample_ext sample_order sample_cfg sample_agent_no_ports True))
     = [\<lparr>cp_Name = ''application-sig'', cp_ContainerPort = 4316, cp_Protocol = ''TCP''\<rparr>,
        \<lparr>cp_Name = ''emf'', cp_ContainerPort = 25888, cp_Protocol = ''TCP''\<rparr>]"
  by (simp add: Container_c_Ports Container_ports_def getConfigContainerPorts_def sample_ext_def
      sample_order_def sample_agent_no_ports_def sample_agent_def sample_spec_def portMapToList_def
      overlayPorts_def Truncate_def maxPortLen_def sample_IsValidPortName_def
      sample_IsValidPortNum_def go_assign_def Let_def)


text \<open>
  C1, as amended. \<open>Container\<close> is a function of the configuration defaults, the custom
  resource, the \<open>addConfig\<close> flag and of what it reads from outside its arguments (the
  default port table, the platform's validators and naming helpers, and the proxy
  variables of the operator process): with all of these fixed, two calls return the same
  container, whatever order the runtime iterates the two maps in, and so with the same
  order of ports, arguments and environment variables.
\<close>

theorem Container_deterministic:
  assumes "admissible ord" and "admissible ord'"
  shows "Container ext ord cfg otelcol addConfig = Container ext ord' cfg otelcol addConfig"
proof -
  have "portMapToList ord (fst (Container_ports ext otelcol))
      = portMapToList ord' (fst (Container_ports ext otelcol))"
    using assms named_Container_ports by (rule portMapToList_order_irrelevant)
  then show ?thesis
    by (auto simp: Container_def Let_def Container_args_order[OF assms] split: prod.splits)
qed

theorem Container_deterministic_witness:
  "Container sample_ext sample_order sample_cfg sample_agent True
     = Container sample_ext sample_order_rev sample_cfg sample_agent True"
  using Container_deterministic[OF admissible_sample_order admissible_sample_order_rev] .

text \<open>
  C1 as stated fails: two calls with the same \<open>(cfg, otelcol, addConfig)\<close> return
  different containers when the proxy variables of the operator process differ, since
  \<open>Container\<close> appends them to the environment list.
\<close>

theorem Container_depends_on_proxy_environment:
  "fst (Container (sample_ext\<lparr>ReadProxyVarsFromEnv := sample_proxy\<rparr>) sample_order sample_cfg
          sample_agent True)
     \<noteq> fst (Container sample_ext sample_order sample_cfg sample_agent True)"
proof
  assume "fst (Container (sample_ext\<lparr>ReadProxyVarsFromEnv := sample_proxy\<rparr>) sample_order sample_cfg
          sample_agent True)
     = fst (Container sample_ext sample_order sample_cfg sample_agent True)"
  then have "c_Env (fst (Container (sample_ext\<lparr>ReadProxyVarsFromEnv := sample_proxy\<rparr>) sample_order
          sample_cfg sample_agent True))
     = c_Env (fst (Container sample_ext sample_order sample_cfg sample_agent True))" by simp
  then show False
    by (simp add: Container_c_Env Container_env_def sample_ext_def sample_proxy_def)
qed

text \<open>The last declared port of a name is the only entry of that name in the port list.\<close>

lemma Container_ports_last_declared:
  assumes "admissible ord"
    and "Ports (Spec otelcol) = pre @ p # post"
    and "sp_Name p \<notin> sp_Name ` set post"
  shows "filter (\<lambda>e. cp_Name e = sp_Name p) (c_Ports (fst (Container ext ord cfg otelcol addConfig)))
       = [\<lparr>cp_Name = sp_Name p, cp_ContainerPort = sp_Port p, cp_Protocol = sp_Protocol p\<rparr>]"
proof -
  let ?m = "fst (Container_ports ext otelcol)"
  let ?e = "\<lparr>cp_Name = sp_Name p, cp_ContainerPort = sp_Port p, cp_Protocol = sp_Protocol p\<rparr>"
  let ?out = "portMapToList ord ?m"
  have n: "named ?m" by (rule named_Container_ports)
  from Container_ports_overlay[of ext otelcol] assms(2)
  obtain m0 where "?m = overlayPorts (pre @ p # post) m0" by auto
  with map_of_overlayPorts_last[OF assms(3), of pre m0]
  have "map_of ?m (sp_Name p) = Some ?e" by simp
  then have "(sp_Name p, ?e) \<in> set ?m" by (rule map_of_SomeD)
  then have "?e \<in> snd ` set ?m" by force
  then have mem: "?e \<in> set ?out" by (simp add: portMapToList_set[OF assms(1)])
  have d: "distinct (map cp_Name ?out)" using assms(1) n by (rule portMapToList_distinct)
  from filter_unique_key[OF d mem] have "filter (\<lambda>y. cp_Name y = sp_Name p) ?out = [?e]" by simp
  then show ?thesis by (simp add: Container_c_Ports)
qed

text \<open>
  C8. For every default port table and every list of declared ports (the empty one
  too), the port list of the container is sorted by name and no name occurs twice. A
  declared port replaces a default port of the same (truncated) name: for each declared
  port \<open>p\<close> the port list has exactly one entry of that name, and it carries the number
  and protocol of a declared port \<open>q\<close> of that name (the last one declared; \<open>p\<close> itself
  when no other declared port has its name).
\<close>

theorem Container_ports_override:
  "sorted (map cp_Name (c_Ports (fst (Container ext ord cfg otelcol addConfig))))
   \<and> (admissible ord \<longrightarrow>
        distinct (map cp_Name (c_Ports (fst (Container ext ord cfg otelcol addConfig))))
        \<and> (\<forall>p \<in> set (Ports (Spec otelcol)).
             (\<exists>pre q post. Ports (Spec otelcol) = pre @ q # post \<and> sp_Name q = sp_Name p
                \<and> sp_Name p \<notin> sp_Name ` set post
                \<and> filter (\<lambda>e. cp_Name e = sp_Name p)
                     (c_Ports (fst (Container ext ord cfg otelcol addConfig)))
                   = [\<lparr>cp_Name = sp_Name p, cp_ContainerPort = sp_Port q,
                       cp_Protocol = sp_Protocol q\<rparr>])
             \<and> ((\<forall>q \<in> set (Ports (Spec otelcol)). sp_Name q = sp_Name p \<longrightarrow> q = p) \<longrightarrow>
                  filter (\<lambda>e. cp_Name e = sp_Name p)
                     (c_Ports (fst (Container ext ord cfg otelcol addConfig)))
                   = [\<lparr>cp_Name = sp_Name p, cp_ContainerPort = sp_Port p,
                       cp_Protocol = sp_Protocol p\<rparr>])))"
proof -
  let ?out = "c_Ports (fst (Container ext ord cfg otelcol addConfig))"
  have 3: "sorted (map cp_Name ?out)" by (simp add: Container_c_Ports portMapToList_sorted)
  have 4: "distinct (map cp_Name ?out)" if "admissible ord"
    using portMapToList_distinct[OF that named_Container_ports] by (simp add: Container_c_Ports)
  have 5: "(\<exists>pre q post. Ports (Spec otelcol) = pre @ q # post \<and> sp_Name q = sp_Name p
            \<and> sp_Name p \<notin> sp_Name ` set post
            \<and> filter (\<lambda>e. cp_Name e = sp_Name p) ?out
               = [\<lparr>cp_Name = sp_Name p, cp_ContainerPort = sp_Port q, cp_Protocol = sp_Protocol q\<rparr>])
     \<and> ((\<forall>q \<in> set (Ports (Spec otelcol)). sp_Name q = sp_Name p \<longrightarrow> q = p) \<longrightarrow>
          filter (\<lambda>e. cp_Name e = sp_Name p) ?out
               = [\<lparr>cp_Name = sp_Name p, cp_ContainerPort = sp_Port p, cp_Protocol = sp_Protocol p\<rparr>])"
    if adm: "admissible ord" and mem: "p \<in> set (Ports (Spec otelcol))" for p
  proof -
    from mem have "\<exists>q \<in> set (Ports (Spec otelcol)). sp_Name q = sp_Name p" by blast
    from split_list_last_prop[OF this]
    obtain pre q post where sp: "Ports (Spec otelcol) = pre @ q # post" "sp_Name q = sp_Name p"
      "\<forall>z \<in> set post. sp_Name z \<noteq> sp_Name p" by blast
    from sp(2,3) have last: "sp_Name q \<notin> sp_Name ` set post" by auto
    from Container_ports_last_declared[OF adm sp(1) last, of ext cfg addConfig] sp(2)
    have f: "filter (\<lambda>e. cp_Name e = sp_Name p) ?out
        = [\<lparr>cp_Name = sp_Name p, cp_ContainerPort = sp_Port q, cp_Protocol = sp_Protocol q\<rparr>]"
      by simp
    from sp(2,3) have 1: "\<exists>pre q post. Ports (Spec otelcol) = pre @ q # post \<and> sp_Name q = sp_Name p
              \<and> sp_Name p \<notin> sp_Name ` set post
              \<and> filter (\<lambda>e. cp_Name e = sp_Name p) ?out
                 = [\<lparr>cp_Name = sp_Name p, cp_ContainerPort = sp_Port q, cp_Protocol = sp_Protocol q\<rparr>]"
      using sp(1) f last by metis
    have 2: "filter (\<lambda>e. cp_Name e = sp_Name p) ?out
        = [\<lparr>cp_Name = sp_Name p, cp_ContainerPort = sp_Port p, cp_Protocol = sp_Protocol p\<rparr>]"
      if "\<forall>q \<in> set (Ports (Spec otelcol)). sp_Name q = sp_Name p \<longrightarrow> q = p"
    proof -
      from that sp(1,2) have "q = p" by simp
      with f show ?thesis by simp
    qed
    from 1 2 show ?thesis by blast
  qed
  from 3 4 5 show ?thesis by blast
qed

theorem Container_ports_override_witness:
  "filter (\<lambda>e. cp_Name e = ''emf'')
       (c_Ports (fst (Container sample_ext sample_order sample_cfg sample_agent True)))
     = [\<lparr>cp_Name = ''emf'', cp_ContainerPort = 9999, cp_Protocol = ''TCP''\<rparr>]
   \<and> sorted (map cp_Name (c_Ports (fst (Container sample_ext sample_order sample_cfg sample_agent True))))
   \<and> distinct (map cp_Name (c_Ports (fst (Container sample_ext sample_order sample_cfg sample_agent True))))
   \<and> sorted (map cp_Name
        (c_Ports (fst (Container sample_ext sample_order sample_cfg sample_agent_no_ports True))))
   \<and> distinct (map cp_Name
        (c_Ports (fst (Container sample_ext sample_order sample_cfg sample_agent_no_ports True))))"
proof -
  let ?p = "\<lparr>sp_Name = ''emf'', sp_Port = 9999, sp_Protocol = ''TCP''\<rparr>"
  have a: "?p \<in> set (Ports (Spec sample_agent))"
    by (simp add: sample_agent_def sample_spec_def)
  have b: "\<forall>q \<in> set (Ports (Spec sample_agent)). sp_Name q = sp_Name ?p \<longrightarrow> q = ?p"
    by (simp add: sample_agent_def sample_spec_def)
  note i1 = Container_ports_override[of sample_ext sample_order sample_cfg sample_agent True]
  note i2 = Container_ports_override[of sample_ext sample_order sample_cfg sample_agent_no_ports True]
  from i1 admissible_sample_order a b
  have "filter (\<lambda>e. cp_Name e = sp_Name ?p)
       (c_Ports (fst (Container sample_ext sample_order sample_cfg sample_agent True)))
     = [\<lparr>cp_Name = sp_Name ?p, cp_ContainerPort = sp_Port ?p, cp_Protocol = sp_Protocol ?p\<rparr>]"
    by blast
  then have 1: "filter (\<lambda>e. cp_Name e = ''emf'')
       (c_Ports (fst (Container sample_ext sample_order sample_cfg sample_agent True)))
     = [\<lparr>cp_Name = ''emf'', cp_ContainerPort = 9999, cp_Protocol = ''TCP''\<rparr>]" by simp
  from 1 i1 i2 admissible_sample_order show ?thesis by blast
qed

text \<open>
  C9. \<open>getConfigContainerPorts\<close> never returns an error. Every entry of its result comes
  from a port of the default table, is stored under the name truncated to at most 15
  characters, and passes both validators on the truncated name and on the number. A
  default port that fails a validator is not in the result and the note "dropping
  invalid container port" is logged for it; a default port that passes is in the result
  under its truncated name.
\<close>

theorem getConfigContainerPorts_drops_invalid:
  "snd (fst (getConfigContainerPorts ext cfg)) = None
   \<and> (\<forall>(k, e) \<in> set (fst (fst (getConfigContainerPorts ext cfg))).
        length k \<le> 15 \<and> IsValidPortName ext k = []
        \<and> IsValidPortNum ext (sint (cp_ContainerPort e)) = []
        \<and> (\<exists>p \<in> set (CloudwatchAgentPorts ext).
              k = Truncate (sp_Name p) maxPortLen \<and> e = defaultEntry p))
   \<and> (\<forall>p \<in> set (CloudwatchAgentPorts ext).
        IsValidPortName ext (Truncate (sp_Name p) maxPortLen) \<noteq> []
          \<or> IsValidPortNum ext (sint (sp_Port p)) \<noteq> [] \<longrightarrow>
        droppingNote ext p \<in> set (snd (getConfigContainerPorts ext cfg))
        \<and> defaultEntry p \<notin> snd ` set (fst (fst (getConfigContainerPorts ext cfg))))
   \<and> (\<forall>p \<in> set (CloudwatchAgentPorts ext).
        IsValidPortName ext (Truncate (sp_Name p) maxPortLen) = []
          \<and> IsValidPortNum ext (sint (sp_Port p)) = [] \<longrightarrow>
        Truncate (sp_Name p) maxPortLen \<in> fst ` set (fst (fst (getConfigContainerPorts ext cfg))))"
proof -
  let ?res = "getConfigContainerPorts_loop ext (CloudwatchAgentPorts ext) ([], [])"
  have r: "getConfigContainerPorts ext cfg = ((fst ?res, None), snd ?res)"
    by (simp add: getConfigContainerPorts_def split: prod.splits)
  have ent: "\<exists>p \<in> set (CloudwatchAgentPorts ext).
      validPort ext p \<and> k = Truncate (sp_Name p) maxPortLen \<and> e = defaultEntry p"
    if "(k, e) \<in> set (fst ?res)" for k e
    using default_ports_entries[OF that] by simp
  have 1: "snd (fst (getConfigContainerPorts ext cfg)) = None" by (simp add: r)
  have 2: "\<forall>(k, e) \<in> set (fst (fst (getConfigContainerPorts ext cfg))).
        length k \<le> 15 \<and> IsValidPortName ext k = []
        \<and> IsValidPortNum ext (sint (cp_ContainerPort e)) = []
        \<and> (\<exists>p \<in> set (CloudwatchAgentPorts ext).
              k = Truncate (sp_Name p) maxPortLen \<and> e = defaultEntry p)"
    unfolding r using ent
    by (fastforce simp: validPort_def defaultEntry_def Truncate_def maxPortLen_def)
  have 3: "droppingNote ext p \<in> set (snd (getConfigContainerPorts ext cfg))
        \<and> defaultEntry p \<notin> snd ` set (fst (fst (getConfigContainerPorts ext cfg)))"
    if p: "p \<in> set (CloudwatchAgentPorts ext)"
      and bad: "IsValidPortName ext (Truncate (sp_Name p) maxPortLen) \<noteq> []
          \<or> IsValidPortNum ext (sint (sp_Port p)) \<noteq> []" for p
  proof
    from bad have nv: "\<not> validPort ext p" by (auto simp: validPort_def)
    from default_ports_invalid_noted[OF p nv]
    show "droppingNote ext p \<in> set (snd (getConfigContainerPorts ext cfg))" by (simp add: r)
    show "defaultEntry p \<notin> snd ` set (fst (fst (getConfigContainerPorts ext cfg)))"
    proof
      assume "defaultEntry p \<in> snd ` set (fst (fst (getConfigContainerPorts ext cfg)))"
      then obtain k where "(k, defaultEntry p) \<in> set (fst ?res)" by (auto simp: r)
      from ent[OF this] obtain q where "validPort ext q" "defaultEntry p = defaultEntry q" by blast
      then have "validPort ext p" by (simp add: validPort_def defaultEntry_def)
      with nv show False by simp
    qed
  qed
  have 4: "Truncate (sp_Name p) maxPortLen \<in> fst ` set (fst (fst (getConfigContainerPorts ext cfg)))"
    if p: "p \<in> set (CloudwatchAgentPorts ext)"
      and ok: "IsValidPortName ext (Truncate (sp_Name p) maxPortLen) = []
          \<and> IsValidPortNum ext (sint (sp_Port p)) = []" for p
  proof -
    from ok have "validPort ext p" by (simp add: validPort_def)
    from default_ports_valid_kept[OF p this] show ?thesis by (simp add: r)
  qed
  from 1 2 3 4 show ?thesis by blast
qed


theorem getConfigContainerPorts_drops_invalid_witness:
  "snd (fst (getConfigContainerPorts sample_ext ''{}'')) = None
   \<and> (\<exists>e. (''application-sig'', e) \<in> set (fst (fst (getConfigContainerPorts sample_ext ''{}'')))
        \<and> length ''application-sig'' \<le> 15
        \<and> IsValidPortNum sample_ext (sint (cp_ContainerPort e)) = [])
   \<and> droppingNote sample_ext \<lparr>sp_Name = ''statsd'', sp_Port = 0, sp_Protocol = ''UDP''\<rparr>
        \<in> set (snd (getConfigContainerPorts sample_ext ''{}''))
   \<and> defaultEntry \<lparr>sp_Name = ''statsd'', sp_Port = 0, sp_Protocol = ''UDP''\<rparr>
        \<notin> snd ` set (fst (fst (getConfigContainerPorts sample_ext ''{}'')))"
proof -
  let ?long = "\<lparr>sp_Name = ''application-signals-http'', sp_Port = 4316, sp_Protocol = ''TCP''\<rparr>"
  let ?bad = "\<lparr>sp_Name = ''statsd'', sp_Port = 0, sp_Protocol = ''UDP''\<rparr>"
  let ?ports = "fst (fst (getConfigContainerPorts sample_ext ''{}''))"
  note inst = getConfigContainerPorts_drops_invalid[of sample_ext "''{}''"]
  have long: "?long \<in> set (CloudwatchAgentPorts sample_ext)"
    and bad: "?bad \<in> set (CloudwatchAgentPorts sample_ext)"
    by (simp_all add: sample_ext_def)
  have t: "Truncate (sp_Name ?long) maxPortLen = ''application-sig''"
    by (simp add: Truncate_def maxPortLen_def)
  have long_ok: "IsValidPortName sample_ext (Truncate (sp_Name ?long) maxPortLen) = []
      \<and> IsValidPortNum sample_ext (sint (sp_Port ?long)) = []"
    by (simp add: sample_ext_def sample_IsValidPortName_def sample_IsValidPortNum_def
        Truncate_def maxPortLen_def)
  have bad_no: "IsValidPortName sample_ext (Truncate (sp_Name ?bad) maxPortLen) \<noteq> []
      \<or> IsValidPortNum sample_ext (sint (sp_Port ?bad)) \<noteq> []"
    by (simp add: sample_ext_def sample_IsValidPortNum_def)
  from inst long long_ok have "Truncate (sp_Name ?long) maxPortLen \<in> fst ` set ?ports" by blast
  with t obtain e where e: "(''application-sig'', e) \<in> set ?ports" by auto
  with inst have "length ''application-sig'' \<le> 15
      \<and> IsValidPortNum sample_ext (sint (cp_ContainerPort e)) = []" by blast
  with e have 2: "\<exists>e. (''application-sig'', e) \<in> set ?ports
        \<and> length ''application-sig'' \<le> 15
        \<and> IsValidPortNum sample_ext (sint (cp_ContainerPort e)) = []" by blast
  from inst bad bad_no have 3: "droppingNote sample_ext ?bad \<in> set (snd (getConfigContainerPorts sample_ext ''{}''))
      \<and> defaultEntry ?bad \<notin> snd ` set ?ports" by blast
  from inst have 1: "snd (fst (getConfigContainerPorts sample_ext ''{}'')) = None" by blast
  from 1 2 3 show ?thesis by blast
qed

lemma renderFlag_config: "renderFlag ''config'' v = ''--config='' @ v"
  by (simp add: renderFlag_def)

text \<open>
  C6, as amended. For a flag map without the reserved key (or with \<open>addConfig\<close>, which
  removes it), every remaining flag \<open>k\<close> with value \<open>v\<close> appears among the user-flag
  arguments as "--k=v", these arguments are exactly the renderings of the remaining
  flags, and they are in ascending bytewise order of the rendered strings "--k=v". The
  list does not depend on the order of iteration nor on the order of insertion: another
  map with the same entries gives the same list.
\<close>

theorem Container_user_flags_sorted:
  assumes "admissible ord" and "admissible ord'"
    and "Args (Spec otelcol) = Some m" and "Args (Spec otelcol') = Some m'" and "mset m' = mset m"
    and "addConfig \<or> ''config'' \<notin> fst ` set m"
  shows "(\<forall>(k, v) \<in> set m. k \<noteq> ''config'' \<longrightarrow>
            renderFlag k v \<in> set (userArgs addConfig (c_Args (fst (Container ext ord cfg otelcol addConfig)))))
     \<and> mset (userArgs addConfig (c_Args (fst (Container ext ord cfg otelcol addConfig))))
         = image_mset (\<lambda>(k, v). renderFlag k v) (filter_mset (\<lambda>(k, v). k \<noteq> ''config'') (mset m))
     \<and> sorted (userArgs addConfig (c_Args (fst (Container ext ord cfg otelcol addConfig))))
     \<and> userArgs addConfig (c_Args (fst (Container ext' ord' cfg' otelcol' addConfig)))
         = userArgs addConfig (c_Args (fst (Container ext ord cfg otelcol addConfig)))"
proof -
  let ?nc = "\<lambda>(k :: string, v :: string). k \<noteq> ''config''"
  let ?r = "\<lambda>(k, v). renderFlag k v"
  have keep: "filter ?nc x = x" if "''config'' \<notin> fst ` set x" for x
    using that by (induction x) auto
  have u: "userArgs addConfig (c_Args (fst (Container e ord0 c0 o0 addConfig)))
      = sort (map ?r (filter ?nc x))"
    if "admissible ord0" "Args (Spec o0) = Some x" "addConfig \<or> ''config'' \<notin> fst ` set x"
    for e ord0 c0 o0 x
    using that keep[of x]
    by (auto simp: userArgs_def Container_c_Args Container_args_closed)
  from assms(5) have s: "set m' = set m" by (metis set_mset_mset)
  have 1: "userArgs addConfig (c_Args (fst (Container ext ord cfg otelcol addConfig)))
      = sort (map ?r (filter ?nc m))"
    using assms by (intro u) auto
  have 2: "userArgs addConfig (c_Args (fst (Container ext' ord' cfg' otelcol' addConfig)))
      = sort (map ?r (filter ?nc m'))"
    using assms s by (intro u) auto
  have "mset (map ?r (filter ?nc m')) = mset (map ?r (filter ?nc m))"
    using assms(5) by simp
  then have 3: "sort (map ?r (filter ?nc m')) = sort (map ?r (filter ?nc m))"
    by (rule sort_mset_eq)
  have 4: "\<forall>(k, v) \<in> set m. k \<noteq> ''config'' \<longrightarrow> renderFlag k v \<in> set (sort (map ?r (filter ?nc m)))"
    by force
  from 4 show ?thesis unfolding 1 2 3 by simp
qed

theorem Container_user_flags_sorted_witness:
  "renderFlag ''a'' ''1''
     \<in> set (userArgs True (c_Args (fst (Container sample_ext sample_order sample_cfg sample_agent True))))
   \<and> sorted (userArgs True (c_Args (fst (Container sample_ext sample_order sample_cfg sample_agent True))))
   \<and> userArgs True (c_Args (fst (Container sample_ext sample_order_rev sample_cfg
        (sample_agent_with_args [(''a'', ''1''), (''b'', ''2''), (''config'', ''/tmp/agent.json'')]) True)))
       = userArgs True (c_Args (fst (Container sample_ext sample_order sample_cfg sample_agent True)))"
proof -
  let ?m = "[(''b'', ''2''), (''config'', ''/tmp/agent.json''), (''a'', ''1'')]"
  let ?m' = "[(''a'', ''1''), (''b'', ''2''), (''config'', ''/tmp/agent.json'')]"
  have a: "Args (Spec sample_agent) = Some ?m" by (simp add: sample_agent_def sample_spec_def)
  have a': "Args (Spec (sample_agent_with_args ?m')) = Some ?m'"
    by (simp add: sample_agent_with_args_def)
  have p: "mset ?m' = mset ?m" by simp
  have c: "True \<or> ''config'' \<notin> fst ` set ?m" by simp
  have k: "(''a'', ''1'') \<in> set ?m" by simp
  from Container_user_flags_sorted[OF admissible_sample_order admissible_sample_order_rev a a' p c,
      of sample_ext sample_cfg sample_ext sample_cfg] k
  show ?thesis by auto
qed

text \<open>
  C6 as stated fails: the arguments are sorted as rendered strings, not by key. The key
  "a" is below the key "a-b", but "--a-b=2" is below "--a=1", since the hyphen is
  below the equals sign.
\<close>

theorem Container_user_flags_not_in_key_order:
  "c_Args (fst (Container sample_ext sample_order sample_cfg
       (sample_agent_with_args [(''a'', ''1''), (''a-b'', ''2'')]) False))
     = [''--a-b=2'', ''--a=1'']
   \<and> (''a'' :: string) < ''a-b''"
  by (simp add: Container_c_Args Container_args_def sample_agent_with_args_def sample_order_def
      renderFlag_def go_lookup_def Let_def)


text \<open>
  C7, as amended. For a flag map that contains the key "config", with \<open>addConfig\<close> the
  first argument is the system-generated "--config=/conf/" followed by the config map
  entry, and every later argument is the rendering of a flag whose key is not "config":
  the value the user gave for "config" yields no argument. When no key contains an
  equals sign, no later argument starts with "--config=".
\<close>

theorem Container_config_flag_first:
  assumes "admissible ord" and "Args (Spec otelcol) = Some m" and "''config'' \<in> fst ` set m"
  shows "c_Args (fst (Container ext ord cfg otelcol True)) \<noteq> []
     \<and> hd (c_Args (fst (Container ext ord cfg otelcol True)))
         = ''--config=/conf/'' @ CollectorConfigMapEntry cfg
     \<and> (\<forall>a \<in> set (tl (c_Args (fst (Container ext ord cfg otelcol True)))).
           \<exists>k v. (k, v) \<in> set m \<and> k \<noteq> ''config'' \<and> a = renderFlag k v)
     \<and> length (c_Args (fst (Container ext ord cfg otelcol True)))
         = Suc (length (filter (\<lambda>(k, v). k \<noteq> ''config'') m))
     \<and> ((\<forall>k \<in> fst ` set m. CHR ''='' \<notin> set k) \<longrightarrow>
          (\<forall>a \<in> set (tl (c_Args (fst (Container ext ord cfg otelcol True)))).
             take 9 a \<noteq> ''--config=''))"
proof -
  let ?rest = "sort (map (\<lambda>(k, v). renderFlag k v) (filter (\<lambda>(k, v). k \<noteq> ''config'') m))"
  have a: "c_Args (fst (Container ext ord cfg otelcol True))
      = (''--config=/conf/'' @ CollectorConfigMapEntry cfg) # ?rest"
    by (simp add: Container_c_Args Container_args_closed[OF assms(1)] assms(2))
  have r: "\<exists>k v. (k, v) \<in> set m \<and> k \<noteq> ''config'' \<and> a = renderFlag k v" if "a \<in> set ?rest" for a
    using that by auto
  have e: "take 9 a \<noteq> ''--config=''"
    if "\<forall>k \<in> fst ` set m. CHR ''='' \<notin> set k" and "a \<in> set ?rest" for a
  proof -
    from r[OF that(2)] obtain k v where kv: "(k, v) \<in> set m" "k \<noteq> ''config''" "a = renderFlag k v"
      by blast
    from kv(1) that(1) have "CHR ''='' \<notin> set k" by force
    from renderFlag_not_config[OF kv(2) this] kv(3) show ?thesis by simp
  qed
  show ?thesis unfolding a using r e by simp
qed

theorem Container_config_flag_first_witness:
  "c_Args (fst (Container sample_ext sample_order sample_cfg sample_agent True)) \<noteq> []
   \<and> hd (c_Args (fst (Container sample_ext sample_order sample_cfg sample_agent True)))
       = ''--config=/conf/cwagentconfig.json''
   \<and> length (c_Args (fst (Container sample_ext sample_order sample_cfg sample_agent True))) = 3
   \<and> ''--config=/tmp/agent.json''
       \<notin> set (tl (c_Args (fst (Container sample_ext sample_order sample_cfg sample_agent True))))"
proof -
  let ?m = "[(''b'', ''2''), (''config'', ''/tmp/agent.json''), (''a'', ''1'')]"
  let ?args = "c_Args (fst (Container sample_ext sample_order sample_cfg sample_agent True))"
  have a: "Args (Spec sample_agent) = Some ?m" by (simp add: sample_agent_def sample_spec_def)
  have c: "''config'' \<in> fst ` set ?m" by simp
  have n: "\<forall>k \<in> fst ` set ?m. CHR ''='' \<notin> set k" by simp
  note inst = Container_config_flag_first[OF admissible_sample_order a c, of sample_ext sample_cfg]
  from inst n have t: "\<forall>a \<in> set (tl ?args). take 9 a \<noteq> ''--config=''" by blast
  have "''--config=/tmp/agent.json'' \<notin> set (tl ?args)"
  proof
    assume "''--config=/tmp/agent.json'' \<in> set (tl ?args)"
    with t have "take 9 ''--config=/tmp/agent.json'' \<noteq> ''--config=''" by blast
    then show False by simp
  qed
  with inst show ?thesis by (simp add: sample_cfg_def)
qed

text \<open>
  C7 as stated fails: only the key "config" itself is deleted, so a flag whose key
  starts with "config=" is rendered as a second argument that starts with "--config=".
\<close>

theorem Container_second_config_argument:
  "c_Args (fst (Container sample_ext sample_order sample_cfg
       (sample_agent_with_args [(''config'', ''z''), (''config=x'', ''y'')]) True))
     = [''--config=/conf/cwagentconfig.json'', ''--config=x=y'']"
  by (simp add: Container_c_Args Container_args_def sample_agent_with_args_def sample_order_def
      sample_cfg_def renderFlag_def go_lookup_def go_delete_def Let_def)

text \<open>
  C10. Without \<open>addConfig\<close>, an entry of the flag map with key "config" and value \<open>v\<close>
  is not removed: "--config=v" is among the arguments, the arguments are exactly the
  renderings of the entries of the flag map (so no system-generated flag is among them),
  in sorted order, and the caller's flag map is unchanged.
\<close>

theorem Container_config_flag_kept:
  assumes "admissible ord" and "Args (Spec otelcol) = Some m" and "(''config'', v) \<in> set m"
  shows "''--config='' @ v \<in> set (c_Args (fst (Container ext ord cfg otelcol False)))
     \<and> mset (c_Args (fst (Container ext ord cfg otelcol False)))
         = image_mset (\<lambda>(k, v). renderFlag k v) (mset m)
     \<and> sorted (c_Args (fst (Container ext ord cfg otelcol False)))
     \<and> fst (snd (Container ext ord cfg otelcol False)) = m"
proof -
  have a: "c_Args (fst (Container ext ord cfg otelcol False))
      = sort (map (\<lambda>(k, v). renderFlag k v) m)"
    by (simp add: Container_c_Args Container_args_closed[OF assms(1)] assms(2))
  have "renderFlag ''config'' v \<in> set (map (\<lambda>(k, v). renderFlag k v) m)"
    using assms(3) by force
  then have 1: "''--config='' @ v \<in> set (c_Args (fst (Container ext ord cfg otelcol False)))"
    by (simp add: a renderFlag_config)
  have 2: "fst (snd (Container ext ord cfg otelcol False)) = m"
    by (simp add: Container_def Container_args_def Let_def assms(2) split: prod.splits)
  from 1 2 show ?thesis by (simp add: a)
qed

theorem Container_config_flag_kept_witness:
  "''--config=/tmp/agent.json''
     \<in> set (c_Args (fst (Container sample_ext sample_order sample_cfg sample_agent False)))
   \<and> length (c_Args (fst (Container sample_ext sample_order sample_cfg sample_agent False))) = 3
   \<and> sorted (c_Args (fst (Container sample_ext sample_order sample_cfg sample_agent False)))"
proof -
  let ?m = "[(''b'', ''2''), (''config'', ''/tmp/agent.json''), (''a'', ''1'')]"
  have a: "Args (Spec sample_agent) = Some ?m" by (simp add: sample_agent_def sample_spec_def)
  have c: "(''config'', ''/tmp/agent.json'') \<in> set ?m" by simp
  from Container_config_flag_kept[OF admissible_sample_order a c, of sample_ext sample_cfg]
  have "''--config=/tmp/agent.json''
       \<in> set (c_Args (fst (Container sample_ext sample_order sample_cfg sample_agent False)))"
    and m: "mset (c_Args (fst (Container sample_ext sample_order sample_cfg sample_agent False)))
         = image_mset (\<lambda>(k, v). renderFlag k v) (mset ?m)"
    and "sorted (c_Args (fst (Container sample_ext sample_order sample_cfg sample_agent False)))"
    by simp_all
  moreover have "length (c_Args (fst (Container sample_ext sample_order sample_cfg sample_agent False))) = 3"
  proof -
    from m have "mset (c_Args (fst (Container sample_ext sample_order sample_cfg sample_agent False)))
        = mset (map (\<lambda>(k, v). renderFlag k v) ?m)" by simp
    from mset_eq_length[OF this] show ?thesis by simp
  qed
  ultimately show ?thesis by blast
qed


end
